theory Spec2Isabelle
  imports Main
begin

section \<open>Python values used by both scripts\<close>

text \<open>
  Text is modelled as \<open>string\<close>. The scripts only ever look for ASCII tokens, and the
  character classes below are the ASCII ones, so the model speaks about ASCII text.
\<close>

datatype error = IndexError | AttributeError | TypeError

text \<open>\<open>xs[i]\<close> for a non-negative index: out of range raises \<open>IndexError\<close>.\<close>

definition index :: "'a list \<Rightarrow> nat \<Rightarrow> error + 'a" where
  "index xs i = (if i < length xs then Inr (xs ! i) else Inl IndexError)"

text \<open>\<open>s.startswith(p)\<close>.\<close>

fun startswith :: "string \<Rightarrow> string \<Rightarrow> bool" where
  "startswith s [] = True"
| "startswith [] (p # ps) = False"
| "startswith (c # cs) (p # ps) = (c = p \<and> startswith cs ps)"

text \<open>\<open>s.split(sep)\<close> for a one-character separator: every occurrence splits, and the
  result always has at least one (possibly empty) field.\<close>

fun py_split :: "char \<Rightarrow> string \<Rightarrow> string list" where
  "py_split sep [] = [[]]"
| "py_split sep (c # cs) =
     (if c = sep then [] # py_split sep cs
      else (case py_split sep cs of [] \<Rightarrow> [[c]] | w # ws \<Rightarrow> (c # w) # ws))"

text \<open>\<open>sep.join(xs)\<close>.\<close>

fun py_join :: "string \<Rightarrow> string list \<Rightarrow> string" where
  "py_join sep [] = []"
| "py_join sep [x] = x"
| "py_join sep (x # y # ys) = x @ sep @ py_join sep (y # ys)"

section \<open>match\_available\_image\_tags.py: the tag matcher\<close>

text \<open>
  \<open>find_best_matching_tag(missing_tag, available_tags)\<close>. The result is \<open>Inl e\<close> when
  the Python raises \<open>e\<close>, \<open>Inr None\<close> when it returns \<open>None\<close> and \<open>Inr (Some t)\<close>
  when it returns the tag \<open>t\<close>. Every subscript of the source goes through \<open>index\<close>.
\<close>

definition find_best_matching_tag :: "string \<Rightarrow> string list \<Rightarrow> error + string option" where
  "find_best_matching_tag missing_tag available_tags =
     (case index (py_split CHR ''-'' missing_tag) 0 of
        Inl e \<Rightarrow> Inl e
      | Inr missing_version \<Rightarrow>
          if missing_tag \<in> set available_tags then Inr (Some missing_tag)
          else
            let major_minor = py_join ''.'' (take 2 (py_split CHR ''.'' missing_version));
                candidates = filter (\<lambda>tag. startswith tag major_minor) available_tags
            in if candidates \<noteq> [] then
                 (case index candidates 0 of Inl e \<Rightarrow> Inl e | Inr t \<Rightarrow> Inr (Some t))
               else
                 (case index (py_split CHR ''.'' missing_version) 0 of
                    Inl e \<Rightarrow> Inl e
                  | Inr major \<Rightarrow>
                      (case find (\<lambda>tag. startswith tag (major @ ''.'')) available_tags of
                         Some tag \<Rightarrow> Inr (Some tag)
                       | None \<Rightarrow>
                           if available_tags \<noteq> [] then
                             (case index available_tags 0 of
                                Inl e \<Rightarrow> Inl e | Inr t \<Rightarrow> Inr (Some t))
                           else Inr None)))"

text \<open>
  The notions the description of the matcher uses, written without \<open>split\<close>: the part of
  a tag before its first \<open>-\<close>, the first dot-separated component of a version, and its
  first two dot-separated components (the whole version when it has no dot).
\<close>

definition version_core :: "string \<Rightarrow> string" where
  "version_core tag = takeWhile (\<lambda>c. c \<noteq> CHR ''-'') tag"

definition first_component :: "string \<Rightarrow> string" where
  "first_component v = takeWhile (\<lambda>c. c \<noteq> CHR ''.'') v"

definition first_two_components :: "string \<Rightarrow> string" where
  "first_two_components v =
     (case dropWhile (\<lambda>c. c \<noteq> CHR ''.'') v of
        [] \<Rightarrow> v
      | d # rest \<Rightarrow> first_component v @ ''.'' @ first_component rest)"


section \<open>migrate\_helmhubio\_to\_helmhubio.py: strings and patterns\<close>

text \<open>\<open>sub in s\<close> on strings.\<close>

fun contains :: "string \<Rightarrow> string \<Rightarrow> bool" where
  "contains [] sub = (sub = [])"
| "contains (c # cs) sub = (startswith (c # cs) sub \<or> contains cs sub)"

text \<open>
  \<open>s.replace(old, new)\<close>: the occurrences of \<open>old\<close> are found from the left and do
  not overlap. Every call of the script passes a non-empty literal for \<open>old\<close>; for an
  empty \<open>old\<close> (where Python inserts \<open>new\<close> around every character) the model
  returns \<open>s\<close>.
\<close>

function replace :: "string \<Rightarrow> string \<Rightarrow> string \<Rightarrow> string" where
  "replace [] old new = []"
| "replace (c # cs) old new =
     (if old \<noteq> [] \<and> startswith (c # cs) old
      then new @ replace (drop (length old) (c # cs)) old new
      else c # replace cs old new)"
  by pat_completeness auto
termination
  by (relation "measure (\<lambda>(s, old, new). length s)") auto

text \<open>
  \<open>s.split(sep, 1)\<close> for a one-character separator: at most one split, at the first
  occurrence.
\<close>

definition py_split1 :: "char \<Rightarrow> string \<Rightarrow> string list" where
  "py_split1 sep s =
     (case dropWhile (\<lambda>c. c \<noteq> sep) s of
        [] \<Rightarrow> [s]
      | d # rest \<Rightarrow> [takeWhile (\<lambda>c. c \<noteq> sep) s, rest])"

text \<open>
  Regular expressions. \<open>rx.sub(repl, text)\<close> scans the text from the left; at each
  position the pattern either matches, and then the replacement is emitted and the scan
  goes on behind the match, or the character is copied. A pattern is modelled by its
  matcher: given the character before the position (for \<open>\b\<close>) and the text from the
  position on, it returns the replacement and the length of the match. All patterns of
  the script match non-empty strings only.
\<close>

type_synonym matcher = "char option \<Rightarrow> string \<Rightarrow> (string \<times> nat) option"

definition match_at :: "matcher \<Rightarrow> char option \<Rightarrow> string \<Rightarrow> (string \<times> nat) option" where
  "match_at m prev s =
     (case m prev s of
        None \<Rightarrow> None
      | Some (out, n) \<Rightarrow> if 0 < n \<and> n \<le> length s then Some (out, n) else None)"

function re_sub :: "matcher \<Rightarrow> char option \<Rightarrow> string \<Rightarrow> string" where
  "re_sub m prev s =
     (case match_at m prev s of
        Some (out, n) \<Rightarrow> out @ re_sub m (Some (s ! (n - 1))) (drop n s)
      | None \<Rightarrow> (case s of [] \<Rightarrow> [] | c # cs \<Rightarrow> c # re_sub m (Some c) cs))"
  by pat_completeness auto
termination
  by (relation "measure (\<lambda>(m, prev, s). length s)")
     (auto simp: match_at_def split: option.splits if_splits)

definition sub :: "matcher \<Rightarrow> string \<Rightarrow> string" where
  "sub m text = re_sub m None text"

text \<open>A pattern without operators: \<open>re.compile(r"docker\.io/bitnami/")\<close>.\<close>

definition lit :: "string \<Rightarrow> string \<Rightarrow> matcher" where
  "lit pat repl prev s = (if startswith s pat then Some (repl, length pat) else None)"

text \<open>
  A pattern that is a finite alternation of literals, each with its own replacement; the
  alternatives are tried in order.
\<close>

definition alts :: "(string \<times> string) list \<Rightarrow> matcher" where
  "alts rules prev s =
     (case find (\<lambda>(pat, repl). startswith s pat) rules of
        None \<Rightarrow> None
      | Some (pat, repl) \<Rightarrow> Some (repl, length pat))"

text \<open>\<open>/(tree|blob)/(main|master)/bitnami/\<close> with replacement \<open>/\1/\2/helmhubio/\<close>.\<close>

definition tree_blob :: matcher where
  "tree_blob =
     alts [(''/'' @ g1 @ ''/'' @ g2 @ ''/bitnami/'', ''/'' @ g1 @ ''/'' @ g2 @ ''/helmhubio/'').
             g1 \<leftarrow> [''tree'', ''blob''], g2 \<leftarrow> [''main'', ''master'']]"

text \<open>\<open>\w\<close> on ASCII text, and the two sides of a \<open>\b\<close>.\<close>

definition is_word :: "char \<Rightarrow> bool" where
  "is_word c \<longleftrightarrow>
     c \<in> set (''abcdefghijklmnopqrstuvwxyz'' @ ''ABCDEFGHIJKLMNOPQRSTUVWXYZ'' @ ''0123456789_'')"

definition word_before :: "char option \<Rightarrow> bool" where
  "word_before prev = (case prev of None \<Rightarrow> False | Some c \<Rightarrow> is_word c)"

definition word_at :: "string \<Rightarrow> bool" where
  "word_at s = (case s of [] \<Rightarrow> False | c # cs \<Rightarrow> is_word c)"

text \<open>\<open>\bBitnami\b\<close> with replacement \<open>HelmHubIO\<close>.\<close>

definition brand :: matcher where
  "brand prev s =
     (if \<not> word_before prev \<and> startswith s ''Bitnami'' \<and> \<not> word_at (drop 7 s)
      then Some (''HelmHubIO'', 7) else None)"

text \<open>
  \<open>\bbitnami/([...]+)\<close> with replacement \<open>repl\1\<close>, for the character class
  \<open>cls\<close>: the group is greedy and nothing follows it.
\<close>

definition namespace_mention :: "(char \<Rightarrow> bool) \<Rightarrow> string \<Rightarrow> matcher" where
  "namespace_mention cls repl prev s =
     (let g = takeWhile cls (drop 8 s)
      in if \<not> word_before prev \<and> startswith s ''bitnami/'' \<and> g \<noteq> []
         then Some (repl @ g, 8 + length g) else None)"

text \<open>The classes \<open>[a-z0-9_.-]\<close> and \<open>[A-Za-z0-9_.-]\<close>.\<close>

definition lower_name :: "char \<Rightarrow> bool" where
  "lower_name c \<longleftrightarrow> c \<in> set (''abcdefghijklmnopqrstuvwxyz'' @ ''0123456789_.-'')"

definition any_name :: "char \<Rightarrow> bool" where
  "any_name c \<longleftrightarrow>
     c \<in> set (''ABCDEFGHIJKLMNOPQRSTUVWXYZ'' @ ''abcdefghijklmnopqrstuvwxyz'' @ ''0123456789_.-'')"

definition SAFE_TEXT_PATTERNS :: "matcher list" where
  "SAFE_TEXT_PATTERNS =
     [lit ''oci://registry-1.docker.io/bitnamicharts'' ''oci://registry-1.docker.io/helmhubiocharts'',
      lit ''docker.io/bitnami/'' ''docker.io/helmhubio/'',
      lit ''docker.io/bitnamilegacy/'' ''docker.io/helmhubio/'',
      lit ''github.com/bitnami/charts'' ''github.com/helmhub-io/charts'',
      tree_blob]"

definition README_BRAND_PATTERNS :: "matcher list" where
  "README_BRAND_PATTERNS = [brand]"

text \<open>
  The text that \<open>safe_text_replace(path, readme_mode)\<close> computes from the text of the
  file; \<open>path_string\<close> is \<open>str(path)\<close>.
\<close>

definition safe_text :: "string \<Rightarrow> bool \<Rightarrow> string \<Rightarrow> string" where
  "safe_text path_string readme_mode orig =
     (let text = foldl (\<lambda>text rx. sub rx text) orig SAFE_TEXT_PATTERNS;
          text = (if readme_mode
                  then sub (namespace_mention lower_name ''helmhubio/'')
                         (foldl (\<lambda>text rx. sub rx text) text README_BRAND_PATTERNS)
                  else text);
          text = (if contains path_string ''.github''
                  then sub (namespace_mention any_name ''helmhub-io/'') text
                  else text)
      in text)"

section \<open>Parsed documents\<close>

text \<open>
  What \<open>yaml.load\<close> and \<open>json.loads\<close> return, for documents built from null,
  booleans, integers, strings, sequences and mappings with string keys. A mapping keeps
  the order of its keys, as a Python dict does.
\<close>

datatype pyobj =
    PNone
  | PBool bool
  | PInt int
  | PStr string
  | PList "pyobj list"
  | PDict "(string \<times> pyobj) list"

text \<open>\<open>d.get(k)\<close>: \<open>None\<close> for a missing key.\<close>

definition dict_get :: "(string \<times> pyobj) list \<Rightarrow> string \<Rightarrow> pyobj" where
  "dict_get d k = (case map_of d k of None \<Rightarrow> PNone | Some v \<Rightarrow> v)"

text \<open>\<open>d[k] = v\<close>: an existing key keeps its place, a new key goes to the end.\<close>

fun assign :: "('k \<times> 'v) list \<Rightarrow> 'k \<Rightarrow> 'v \<Rightarrow> ('k \<times> 'v) list" where
  "assign [] k v = [(k, v)]"
| "assign ((k', v') # d) k v = (if k' = k then (k, v) # d else (k', v') # assign d k v)"

text \<open>Truth value of an object, as \<open>x or y\<close> tests it.\<close>

fun truthy :: "pyobj \<Rightarrow> bool" where
  "truthy PNone = False"
| "truthy (PBool b) = b"
| "truthy (PInt i) = (i \<noteq> 0)"
| "truthy (PStr s) = (s \<noteq> [])"
| "truthy (PList xs) = (xs \<noteq> [])"
| "truthy (PDict d) = (d \<noteq> [])"

section \<open>update\_chart\_yaml on the parsed document\<close>

text \<open>
  The loop that the script writes for \<open>annotations.images\<close>, \<open>sources\<close> and
  \<open>tags\<close>: every string item is replaced by \<open>f item\<close>, \<open>changed\<close> is set when an
  item differs, other items are kept.
\<close>

fun rewrite_strings :: "(string \<Rightarrow> string) \<Rightarrow> pyobj list \<Rightarrow> bool \<Rightarrow> pyobj list \<times> bool" where
  "rewrite_strings f [] changed = ([], changed)"
| "rewrite_strings f (item # items) changed =
     (case item of
        PStr s \<Rightarrow>
          (case rewrite_strings f items (changed \<or> f s \<noteq> s) of
             (new, changed') \<Rightarrow> (PStr (f s) # new, changed'))
      | _ \<Rightarrow>
          (case rewrite_strings f items changed of
             (new, changed') \<Rightarrow> (item # new, changed')))"

text \<open>The two \<open>replace\<close> calls applied to an image reference of the annotations.\<close>

definition image_ref :: "string \<Rightarrow> string" where
  "image_ref item =
     replace (replace item ''docker.io/helmhubio/'' ''docker.io/helmhubio/'')
       ''docker.io/helmhubiolegacy/'' ''docker.io/helmhubio/''"

text \<open>
  \<open>annotations.images\<close>. \<open>data.get("annotations") or {}\<close> is an object without
  \<open>get\<close> when the field holds a non-empty string or list, a non-zero number or
  \<open>True\<close>: the call raises \<open>AttributeError\<close>.
\<close>

definition chart_annotations ::
  "(string \<times> pyobj) list \<Rightarrow> bool \<Rightarrow> error + ((string \<times> pyobj) list \<times> bool)" where
  "chart_annotations data changed =
     (case (if truthy (dict_get data ''annotations'') then dict_get data ''annotations''
            else PDict []) of
        PDict annotations \<Rightarrow>
          (case dict_get annotations ''images'' of
             PList images \<Rightarrow>
               (case rewrite_strings image_ref images changed of
                  (new_images, changed') \<Rightarrow>
                    if new_images \<noteq> images
                    then Inr (assign data ''annotations''
                                (PDict (assign annotations ''images'' (PList new_images))),
                              changed')
                    else Inr (data, changed'))
           | PStr images \<Rightarrow>
               (let new_images = image_ref images
                in if new_images \<noteq> images
                   then Inr (assign data ''annotations''
                               (PDict (assign annotations ''images'' (PStr new_images))),
                             True)
                   else Inr (data, changed))
           | _ \<Rightarrow> Inr (data, changed))
      | _ \<Rightarrow> Inl AttributeError)"

text \<open>\<open>dependencies[*].repository\<close>: the loop body, over the entries of a list.\<close>

fun dependency_entries :: "pyobj list \<Rightarrow> bool \<Rightarrow> pyobj list \<times> bool" where
  "dependency_entries [] changed = ([], changed)"
| "dependency_entries (dep # deps) changed =
     (case dep of
        PDict d \<Rightarrow>
          (case dict_get d ''repository'' of
             PStr repo \<Rightarrow>
               (let new_repo = replace repo ''oci://registry-1.docker.io/helmhubiocharts''
                                 ''oci://registry-1.docker.io/helmhubiocharts''
                in if new_repo \<noteq> repo
                   then (case dependency_entries deps True of
                           (deps', changed') \<Rightarrow>
                             (PDict (assign d ''repository'' (PStr new_repo)) # deps', changed'))
                   else (case dependency_entries deps changed of
                           (deps', changed') \<Rightarrow> (dep # deps', changed')))
           | _ \<Rightarrow>
               (case dependency_entries deps changed of
                  (deps', changed') \<Rightarrow> (dep # deps', changed')))
      | _ \<Rightarrow>
          (case dependency_entries deps changed of
             (deps', changed') \<Rightarrow> (dep # deps', changed')))"

text \<open>
  \<open>for dep in (data.get("dependencies") or [])\<close>: a non-empty string or mapping is
  iterated over its characters or keys, none of which is a mapping; a non-zero number or
  \<open>True\<close> is not iterable and raises \<open>TypeError\<close>.
\<close>

definition chart_dependencies ::
  "(string \<times> pyobj) list \<Rightarrow> bool \<Rightarrow> error + ((string \<times> pyobj) list \<times> bool)" where
  "chart_dependencies data changed =
     (if truthy (dict_get data ''dependencies'') then
        (case dict_get data ''dependencies'' of
           PList deps \<Rightarrow>
             (case dependency_entries deps changed of
                (deps', changed') \<Rightarrow> Inr (assign data ''dependencies'' (PList deps'), changed'))
         | PStr s \<Rightarrow> Inr (data, changed)
         | PDict d \<Rightarrow> Inr (data, changed)
         | _ \<Rightarrow> Inl TypeError)
      else Inr (data, changed))"

text \<open>The rewriting of a GitHub link, as applied to \<open>home\<close> and to every source.\<close>

definition github_link :: "string \<Rightarrow> string" where
  "github_link s =
     sub tree_blob (replace s ''github.com/helmhub-io/charts'' ''github.com/helmhub-io/charts'')"

definition chart_home :: "(string \<times> pyobj) list \<Rightarrow> bool \<Rightarrow> (string \<times> pyobj) list \<times> bool" where
  "chart_home data changed =
     (case dict_get data ''home'' of
        PStr home \<Rightarrow>
          (let new_home = github_link (if contains home ''bitnami''
                                       then ''https://github.com/helmhub-io/charts'' else home)
           in if new_home \<noteq> home then (assign data ''home'' (PStr new_home), True)
              else (data, changed))
      | _ \<Rightarrow> (data, changed))"

definition chart_sources :: "(string \<times> pyobj) list \<Rightarrow> bool \<Rightarrow> (string \<times> pyobj) list \<times> bool" where
  "chart_sources data changed =
     (case dict_get data ''sources'' of
        PList sources \<Rightarrow>
          (case rewrite_strings github_link sources changed of
             (new_sources, changed') \<Rightarrow> (assign data ''sources'' (PList new_sources), changed'))
      | _ \<Rightarrow> (data, changed))"

text \<open>The maintainers' URLs: the loop body, over the entries of a list.\<close>

fun maintainer_entries :: "pyobj list \<Rightarrow> bool \<Rightarrow> pyobj list \<times> bool" where
  "maintainer_entries [] changed = ([], changed)"
| "maintainer_entries (m # ms) changed =
     (case m of
        PDict d \<Rightarrow>
          (case dict_get d ''url'' of
             PStr old \<Rightarrow>
               (let new = replace old ''github.com/helmhub-io/charts'' ''github.com/helmhub-io/charts''
                in if new \<noteq> old
                   then (case maintainer_entries ms True of
                           (ms', changed') \<Rightarrow>
                             (PDict (assign d ''url'' (PStr new)) # ms', changed'))
                   else (case maintainer_entries ms changed of
                           (ms', changed') \<Rightarrow> (m # ms', changed')))
           | _ \<Rightarrow>
               (case maintainer_entries ms changed of
                  (ms', changed') \<Rightarrow> (m # ms', changed')))
      | _ \<Rightarrow>
          (case maintainer_entries ms changed of
             (ms', changed') \<Rightarrow> (m # ms', changed')))"

definition chart_maintainers ::
  "(string \<times> pyobj) list \<Rightarrow> bool \<Rightarrow> (string \<times> pyobj) list \<times> bool" where
  "chart_maintainers data changed =
     (case dict_get data ''maintainers'' of
        PList ms \<Rightarrow>
          (case maintainer_entries ms changed of
             (ms', changed') \<Rightarrow> (assign data ''maintainers'' (PList ms'), changed'))
      | _ \<Rightarrow> (data, changed))"

definition chart_tags :: "(string \<times> pyobj) list \<Rightarrow> bool \<Rightarrow> (string \<times> pyobj) list \<times> bool" where
  "chart_tags data changed =
     (case dict_get data ''tags'' of
        PList tags \<Rightarrow>
          (case rewrite_strings (\<lambda>t. replace t ''bitnami'' ''helmhubio'') tags changed of
             (new_tags, changed') \<Rightarrow> (assign data ''tags'' (PList new_tags), changed'))
      | _ \<Rightarrow> (data, changed))"

text \<open>
  The body of \<open>update_chart_yaml\<close> between \<open>load_yaml\<close> and \<open>dump_yaml\<close>: the
  document after the edits and the value of \<open>changed\<close>, or the exception raised.
\<close>

definition chart_document :: "pyobj \<Rightarrow> error + (pyobj \<times> bool)" where
  "chart_document data =
     (case data of
        PDict d \<Rightarrow>
          (case chart_annotations d False of
             Inl e \<Rightarrow> Inl e
           | Inr (d1, c1) \<Rightarrow>
               (case chart_dependencies d1 c1 of
                  Inl e \<Rightarrow> Inl e
                | Inr (d2, c2) \<Rightarrow>
                    (case chart_home d2 c2 of (d3, c3) \<Rightarrow>
                     (case chart_sources d3 c3 of (d4, c4) \<Rightarrow>
                      (case chart_maintainers d4 c4 of (d5, c5) \<Rightarrow>
                       (case chart_tags d5 c5 of (d6, c6) \<Rightarrow> Inr (PDict d6, c6)))))))
      | _ \<Rightarrow> Inr (data, False))"

section \<open>update\_values\_yaml on the parsed document\<close>

text \<open>
  The \<open>if\<close>/\<open>elif\<close> chain on \<open>repo\<close>: the new value of
  \<open>img["repository"]\<close> when a branch is taken (each taken branch sets \<open>changed\<close>),
  \<open>None\<close> when no branch is. The subscript \<open>[1]\<close> is read only behind a
  \<open>startswith\<close> test that puts a \<open>/\<close> into \<open>repo\<close>, where the split has two
  fields.
\<close>

definition repository_branch :: "string \<Rightarrow> string option" where
  "repository_branch repo =
     (if startswith repo ''bitnami/'' then Some (''helmhubio/'' @ py_split1 CHR ''/'' repo ! 1)
      else if startswith repo ''bitnamilegacy/''
        then Some (''helmhubio/'' @ py_split1 CHR ''/'' repo ! 1)
      else if startswith repo ''docker.io/helmhubio/''
        then Some (replace repo ''docker.io/helmhubio/'' ''docker.io/helmhubio/'')
      else if startswith repo ''docker.io/helmhubiolegacy/''
        then Some (replace repo ''docker.io/helmhubiolegacy/'' ''docker.io/helmhubio/'')
      else None)"

text \<open>The first part of \<open>visit\<close> on a mapping: the edit of \<open>obj["image"]\<close>.\<close>

definition image_repository ::
  "(string \<times> pyobj) list \<Rightarrow> bool \<Rightarrow> (string \<times> pyobj) list \<times> bool" where
  "image_repository obj changed =
     (case map_of obj ''image'' of
        Some (PDict img) \<Rightarrow>
          (case dict_get img ''repository'' of
             PStr repo \<Rightarrow>
               (case repository_branch repo of
                  Some new \<Rightarrow>
                    (assign obj ''image'' (PDict (assign img ''repository'' (PStr new))), True)
                | None \<Rightarrow> (obj, changed))
           | _ \<Rightarrow> (obj, changed))
      | _ \<Rightarrow> (obj, changed))"

text \<open>
  The number of mappings, sequences and entries of a document. The edit of the image
  repository puts a string in the place of a string, so it keeps this number, which
  bounds the recursion of \<open>visit\<close>.
\<close>

fun nodes :: "pyobj \<Rightarrow> nat"
  and nodes_items :: "(string \<times> pyobj) list \<Rightarrow> nat"
  and nodes_elems :: "pyobj list \<Rightarrow> nat" where
  "nodes (PDict d) = Suc (nodes_items d)"
| "nodes (PList xs) = Suc (nodes_elems xs)"
| "nodes PNone = 0"
| "nodes (PBool b) = 0"
| "nodes (PInt i) = 0"
| "nodes (PStr s) = 0"
| "nodes_items [] = 0"
| "nodes_items (kv # d) = Suc (nodes (snd kv) + nodes_items d)"
| "nodes_elems [] = 0"
| "nodes_elems (x # xs) = Suc (nodes x + nodes_elems xs)"

lemma nodes_items_assign:
  "map_of d k = Some v \<Longrightarrow> nodes v' = nodes v \<Longrightarrow> nodes_items (assign d k v') = nodes_items d"
  by (induction d) (auto split: if_splits)

lemma nodes_image_repository:
  "image_repository obj changed = (obj1, changed1) \<Longrightarrow> nodes_items obj1 = nodes_items obj"
  by (auto simp: image_repository_def dict_get_def nodes_items_assign
      split: option.splits pyobj.splits)

lemma nodes_image_repository_less:
  "(case image_repository obj changed of (d, c) \<Rightarrow> nodes_items d) < Suc (nodes_items obj)"
  by (cases "image_repository obj changed") (simp add: nodes_image_repository)

text \<open>
  \<open>visit\<close> of \<open>update_values_yaml\<close>. The flag \<open>changed\<close> of the enclosing function
  is passed through the traversal.
\<close>

function visit_values :: "pyobj \<Rightarrow> bool \<Rightarrow> pyobj \<times> bool"
  and visit_values_items :: "(string \<times> pyobj) list \<Rightarrow> bool \<Rightarrow> (string \<times> pyobj) list \<times> bool"
  and visit_values_elems :: "pyobj list \<Rightarrow> bool \<Rightarrow> pyobj list \<times> bool" where
  "visit_values (PDict obj) changed =
     (case image_repository obj changed of
        (obj1, changed1) \<Rightarrow>
          (case visit_values_items obj1 changed1 of
             (obj2, changed2) \<Rightarrow> (PDict obj2, changed2)))"
| "visit_values (PList xs) changed =
     (case visit_values_elems xs changed of (ys, changed') \<Rightarrow> (PList ys, changed'))"
| "visit_values PNone changed = (PNone, changed)"
| "visit_values (PBool b) changed = (PBool b, changed)"
| "visit_values (PInt i) changed = (PInt i, changed)"
| "visit_values (PStr s) changed = (PStr s, changed)"
| "visit_values_items [] changed = ([], changed)"
| "visit_values_items (kv # d) changed =
     (case visit_values (snd kv) changed of
        (v', changed1) \<Rightarrow>
          (case visit_values_items d changed1 of
             (d', changed2) \<Rightarrow> ((fst kv, v') # d', changed2)))"
| "visit_values_elems [] changed = ([], changed)"
| "visit_values_elems (x # xs) changed =
     (case visit_values x changed of
        (x', changed1) \<Rightarrow>
          (case visit_values_elems xs changed1 of
             (xs', changed2) \<Rightarrow> (x' # xs', changed2)))"
  by pat_completeness auto
termination
  by (relation "measure (\<lambda>x. case x of
          Inl (v, c) \<Rightarrow> nodes v
        | Inr (Inl (d, c)) \<Rightarrow> nodes_items d
        | Inr (Inr (xs, c)) \<Rightarrow> nodes_elems xs)")
     (auto simp: nodes_image_repository_less)

section \<open>update\_values\_schema\_json on the parsed document\<close>

text \<open>The statements applied to a string \<open>v\<close> that is the value of a key.\<close>

definition schema_string :: "string \<Rightarrow> string" where
  "schema_string v =
     (let new = v;
          new = (if startswith new ''bitnami/''
                 then ''helmhubio/'' @ py_split1 CHR ''/'' new ! 1 else new);
          new = (if startswith new ''bitnamilegacy/''
                 then ''helmhubio/'' @ py_split1 CHR ''/'' new ! 1 else new);
          new = replace new ''docker.io/helmhubio/'' ''docker.io/helmhubio/'';
          new = replace new ''docker.io/helmhubiolegacy/'' ''docker.io/helmhubio/''
      in new)"

text \<open>
  \<open>visit\<close> of \<open>update_values_schema_json\<close>: in a mapping a string value is
  rewritten and any other value is visited; in a sequence every element is visited; any
  other object, a string too, is returned as it is.
\<close>

fun visit_schema :: "pyobj \<Rightarrow> bool \<Rightarrow> pyobj \<times> bool"
  and visit_schema_items :: "(string \<times> pyobj) list \<Rightarrow> bool \<Rightarrow> (string \<times> pyobj) list \<times> bool"
  and visit_schema_elems :: "pyobj list \<Rightarrow> bool \<Rightarrow> pyobj list \<times> bool" where
  "visit_schema (PDict obj) changed =
     (case visit_schema_items obj changed of (obj', changed') \<Rightarrow> (PDict obj', changed'))"
| "visit_schema (PList xs) changed =
     (case visit_schema_elems xs changed of (ys, changed') \<Rightarrow> (PList ys, changed'))"
| "visit_schema PNone changed = (PNone, changed)"
| "visit_schema (PBool b) changed = (PBool b, changed)"
| "visit_schema (PInt i) changed = (PInt i, changed)"
| "visit_schema (PStr s) changed = (PStr s, changed)"
| "visit_schema_items [] changed = ([], changed)"
| "visit_schema_items ((k, PStr v) # d) changed =
     (let new = schema_string v
      in if new \<noteq> v
         then (case visit_schema_items d True of
                 (d', changed') \<Rightarrow> ((k, PStr new) # d', changed'))
         else (case visit_schema_items d changed of
                 (d', changed') \<Rightarrow> ((k, PStr v) # d', changed')))"
| "visit_schema_items ((k, v) # d) changed =
     (case visit_schema v changed of
        (v', changed1) \<Rightarrow>
          (case visit_schema_items d changed1 of
             (d', changed2) \<Rightarrow> ((k, v') # d', changed2)))"
| "visit_schema_elems [] changed = ([], changed)"
| "visit_schema_elems (x # xs) changed =
     (case visit_schema x changed of
        (x', changed1) \<Rightarrow>
          (case visit_schema_elems xs changed1 of
             (xs', changed2) \<Rightarrow> (x' # xs', changed2)))"

section \<open>Files and the run\<close>

text \<open>
  The tree under \<open>ROOT\<close>: the files with their paths relative to \<open>ROOT\<close> (the list
  of path components) and their texts. The state of a run holds the tree, the list
  \<open>changed_files\<close> of \<open>main\<close>, and the exception that ended the run, if one did.
\<close>

type_synonym path = "string list"

record state =
  files :: "(path \<times> string) list"
  changed_files :: "path list"
  raised :: "error option"

definition write_text :: "path \<Rightarrow> string \<Rightarrow> state \<Rightarrow> state" where
  "write_text p text s = s\<lparr>files := assign (files s) p text\<rparr>"

text \<open>
  The parsers and printers of the libraries: \<open>yaml.load\<close> and \<open>json.loads\<close> on the
  text of a file (\<open>None\<close> when they raise), \<open>yaml.dump\<close>, and
  \<open>json.dumps(data, indent=2, ensure_ascii=False)\<close>. The parsers stand for the
  reading and the parsing of a file with the given content.
\<close>

record codec =
  yaml_load :: "string \<Rightarrow> pyobj option"
  yaml_dump :: "pyobj \<Rightarrow> string"
  json_loads :: "string \<Rightarrow> pyobj option"
  json_dumps :: "pyobj \<Rightarrow> string"

text \<open>
  The three structural updaters and the text updater on a file. Each returns the value the
  Python function returns and the state after it; an exception that the function does not
  catch is recorded in \<open>raised\<close>.
\<close>

definition update_chart_yaml :: "codec \<Rightarrow> path \<Rightarrow> state \<Rightarrow> bool \<times> state" where
  "update_chart_yaml io p s =
     (case map_of (files s) p of
        None \<Rightarrow> (False, s)
      | Some text \<Rightarrow>
          (case yaml_load io text of
             None \<Rightarrow> (False, s)
           | Some data \<Rightarrow>
               (case chart_document data of
                  Inl e \<Rightarrow> (False, s\<lparr>raised := Some e\<rparr>)
                | Inr (data', changed) \<Rightarrow>
                    if changed then (True, write_text p (yaml_dump io data') s)
                    else (False, s))))"

definition update_values_yaml :: "codec \<Rightarrow> path \<Rightarrow> state \<Rightarrow> bool \<times> state" where
  "update_values_yaml io p s =
     (case map_of (files s) p of
        None \<Rightarrow> (False, s)
      | Some text \<Rightarrow>
          (case yaml_load io text of
             None \<Rightarrow> (False, s)
           | Some data \<Rightarrow>
               (case visit_values data False of
                  (data', changed) \<Rightarrow>
                    if changed then (True, write_text p (yaml_dump io data') s)
                    else (False, s))))"

definition update_values_schema_json :: "codec \<Rightarrow> path \<Rightarrow> state \<Rightarrow> bool \<times> state" where
  "update_values_schema_json io p s =
     (case map_of (files s) p of
        None \<Rightarrow> (False, s)
      | Some text \<Rightarrow>
          (case json_loads io text of
             None \<Rightarrow> (False, s)
           | Some data \<Rightarrow>
               (case visit_schema data False of
                  (data', changed) \<Rightarrow>
                    if changed
                    then (True, write_text p (json_dumps io data' @ [CHR 0x0A]) s)
                    else (False, s))))"

text \<open>\<open>str(path)\<close> for the file at \<open>p\<close> under the root with the parts \<open>root\<close>.\<close>

definition path_str :: "string list \<Rightarrow> path \<Rightarrow> string" where
  "path_str root p = ''/'' @ py_join ''/'' (root @ p)"

text \<open>
  \<open>Path.read_text\<close> reads in text mode: a carriage return followed by a line feed, and
  a carriage return alone, arrive as one line feed. \<open>Path.write_text\<close> writes the line
  feeds of the text as they are (on POSIX).
\<close>

fun universal_newlines :: "string \<Rightarrow> string" where
  "universal_newlines [] = []"
| "universal_newlines (c # s) =
     (if c = CHR 0x0D
      then CHR 0x0A # (case s of
                         [] \<Rightarrow> []
                       | d # t \<Rightarrow> if d = CHR 0x0A then universal_newlines t
                                   else universal_newlines (d # t))
      else c # universal_newlines s)"

definition safe_text_replace :: "string list \<Rightarrow> bool \<Rightarrow> path \<Rightarrow> state \<Rightarrow> bool \<times> state" where
  "safe_text_replace root readme_mode p s =
     (case map_of (files s) p of
        None \<Rightarrow> (False, s)
      | Some raw \<Rightarrow>
          (let orig = universal_newlines raw;
               text = safe_text (path_str root p) readme_mode orig
           in if text \<noteq> orig then (True, write_text p text s) else (False, s)))"

text \<open>
  \<open>Path.suffix\<close> of a file name (from the last dot, unless that dot is the first or
  the last character) and \<open>str.lower\<close> on ASCII.
\<close>

definition suffix :: "string \<Rightarrow> string" where
  "suffix name =
     (let after = rev (takeWhile (\<lambda>c. c \<noteq> CHR ''.'') (rev name))
      in if CHR ''.'' \<in> set name \<and> after \<noteq> [] \<and> length after + 1 < length name
         then CHR ''.'' # after else [])"

definition lower :: "string \<Rightarrow> string" where
  "lower s =
     map (\<lambda>c. case map_of (zip ''ABCDEFGHIJKLMNOPQRSTUVWXYZ'' ''abcdefghijklmnopqrstuvwxyz'') c of
                 None \<Rightarrow> c | Some l \<Rightarrow> l) s"

text \<open>
  A loop over a list of items whose body changes the state: an exception ends the run,
  so no further body is executed once one is raised.
\<close>

fun for_each :: "('a \<Rightarrow> state \<Rightarrow> state) \<Rightarrow> 'a list \<Rightarrow> state \<Rightarrow> state" where
  "for_each body [] s = s"
| "for_each body (x # xs) s = (if raised s \<noteq> None then s else for_each body xs (body x s))"

text \<open>\<open>if update(path): changed_files.append(str(path))\<close>.\<close>

definition record_change :: "(path \<Rightarrow> state \<Rightarrow> bool \<times> state) \<Rightarrow> path \<Rightarrow> state \<Rightarrow> state" where
  "record_change update p s =
     (case update p s of
        (changed, s') \<Rightarrow>
          if changed
          then s'\<lparr>changed_files := changed_files s' @ [p]\<rparr> else s')"

text \<open>
  The top-level chart directories that exist, and \<open>tl_dir.glob("*/name")\<close>, over the paths
  of the tree.
\<close>

definition top_levels :: "path list \<Rightarrow> string list" where
  "top_levels paths =
     filter (\<lambda>d. list_ex (\<lambda>p. case p of [] \<Rightarrow> False | c # cs \<Rightarrow> c = d) paths)
       [''bitnami'', ''helmhubio'']"

definition glob :: "path list \<Rightarrow> string \<Rightarrow> string \<Rightarrow> path list" where
  "glob paths tl_dir name =
     filter (\<lambda>p. case p of [a, b, c] \<Rightarrow> a = tl_dir \<and> c = name | _ \<Rightarrow> False) paths"

text \<open>The body of the walk over all files of the tree (step 2 of \<open>main\<close>).\<close>

definition text_like :: "string list" where
  "text_like = [''.md'', ''.tpl'', ''.txt'', ''.yaml'', ''.yml'', ''.json'', ''.conf'', []]"

definition text_step :: "string list \<Rightarrow> path \<Rightarrow> state \<Rightarrow> state" where
  "text_step root p s =
     (if p = [] \<or> list_ex (\<lambda>part. part \<in> set [''.git'', ''.venv'']) (root @ butlast p) then s
      else if lower (suffix (last p)) \<in> set text_like
        then if last p \<in> set [''Chart.yaml'', ''values.yaml'', ''values.schema.json''] then s
             else record_change (safe_text_replace root (lower (suffix (last p)) = ''.md'')) p s
      else s)"

text \<open>
  \<open>main\<close>, steps 1 and 2, for a run with or without \<open>--apply\<close>; \<open>root\<close> holds the
  parts of the resolved \<open>ROOT\<close>. The optional renaming of step 3 moves files and changes
  no text; it is not part of the model. The files are visited in the order of the tree.
\<close>

definition main :: "codec \<Rightarrow> string list \<Rightarrow> bool \<Rightarrow> (path \<times> string) list \<Rightarrow> state" where
  "main io root apply tree =
     (let paths = map fst tree;
          s0 = \<lparr>files = tree, changed_files = [], raised = None\<rparr>;
          s1 = for_each
                 (\<lambda>tl_dir s.
                    for_each (record_change (update_values_schema_json io))
                      (glob paths tl_dir ''values.schema.json'')
                      (for_each (record_change (update_values_yaml io))
                         (glob paths tl_dir ''values.yaml'')
                         (for_each (record_change (update_chart_yaml io))
                            (glob paths tl_dir ''Chart.yaml'') s)))
                 (top_levels paths) s0
      in for_each (text_step root) paths s1)"

section \<open>Notions used to state the properties\<close>

text \<open>The part of a repository string after its last \<open>/\<close>: the image base name.\<close>

definition after_last_slash :: "string \<Rightarrow> string" where
  "after_last_slash s = rev (takeWhile (\<lambda>c. c \<noteq> CHR ''/'') (rev s))"

text \<open>
  A position in a document: a path of keys and indices from the root, and the object
  found there.
\<close>

datatype step = Key string | Idx nat

fun at_path :: "pyobj \<Rightarrow> step list \<Rightarrow> pyobj option" where
  "at_path v [] = Some v"
| "at_path (PDict d) (Key k # ps) = (case map_of d k of None \<Rightarrow> None | Some v \<Rightarrow> at_path v ps)"
| "at_path (PList xs) (Idx i # ps) = (if i < length xs then at_path (xs ! i) ps else None)"
| "at_path v (p # ps) = None"


section \<open>Facts about the tag matcher\<close>

lemma startswith_iff: "startswith s p \<longleftrightarrow> (\<exists>r. s = p @ r)"
  by (induction s p rule: startswith.induct) auto

lemma py_split_unfold:
  "py_split sep s = takeWhile (\<lambda>c. c \<noteq> sep) s #
     (case dropWhile (\<lambda>c. c \<noteq> sep) s of [] \<Rightarrow> [] | d # r \<Rightarrow> py_split sep r)"
  by (induction s) (auto split: list.splits)

lemma index_0: "index (x # xs) 0 = Inr x"
  by (simp add: index_def)

lemma index_split_0: "index (py_split sep s) 0 = Inr (takeWhile (\<lambda>c. c \<noteq> sep) s)"
  by (subst py_split_unfold) (simp add: index_0)

lemma major_minor_eq:
  "py_join ''.'' (take 2 (py_split CHR ''.'' v)) = first_two_components v"
proof (cases "dropWhile (\<lambda>c. c \<noteq> CHR ''.'') v")
  case Nil
  have "takeWhile (\<lambda>c. c \<noteq> CHR ''.'') v @ dropWhile (\<lambda>c. c \<noteq> CHR ''.'') v = v"
    by (rule takeWhile_dropWhile_id)
  then have tw: "takeWhile (\<lambda>c. c \<noteq> CHR ''.'') v = v"
    by (simp only: Nil append_Nil2)
  have "py_split CHR ''.'' v = [v]"
    by (subst py_split_unfold) (simp only: Nil tw list.case)
  then show ?thesis
    by (simp only: first_two_components_def Nil list.case) simp
next
  case (Cons d rest)
  have "py_split CHR ''.'' v = first_component v # py_split CHR ''.'' rest"
    by (subst py_split_unfold) (simp only: Cons list.case first_component_def)
  moreover have "py_split CHR ''.'' rest = first_component rest #
     (case dropWhile (\<lambda>c. c \<noteq> CHR ''.'') rest of [] \<Rightarrow> [] | d # r \<Rightarrow> py_split CHR ''.'' r)"
    unfolding first_component_def by (rule py_split_unfold)
  ultimately show ?thesis
    by (simp only: first_two_components_def Cons list.case) (simp add: numeral_2_eq_2)
qed

lemma find_mem: "find P xs = Some x \<Longrightarrow> x \<in> set xs"
  by (induction xs) (auto split: if_splits)

lemma find_filter_conv:
  "find P xs = (case filter P xs of [] \<Rightarrow> None | x # _ \<Rightarrow> Some x)"
  by (induction xs) auto

lemma find_best_matching_tag_eq:
  "find_best_matching_tag missing_tag available_tags =
     Inr (if missing_tag \<in> set available_tags then Some missing_tag
          else case find (\<lambda>tag. startswith tag (first_two_components (version_core missing_tag)))
                      available_tags of
                 Some tag \<Rightarrow> Some tag
               | None \<Rightarrow>
                   (case find (\<lambda>tag. startswith tag (first_component (version_core missing_tag) @ ''.''))
                           available_tags of
                      Some tag \<Rightarrow> Some tag
                    | None \<Rightarrow> (case available_tags of [] \<Rightarrow> None | tag # _ \<Rightarrow> Some tag)))"
  unfolding find_best_matching_tag_def
  by (simp add: index_split_0 major_minor_eq version_core_def first_component_def
       find_filter_conv index_0 Let_def split: list.splits option.splits)

text \<open>
  Claim C1. For every missing tag and every ordered list of available tags the matcher
  follows the priority exact, same minor, same major, latest, none: a tag present verbatim
  is returned; otherwise the first tag in list order that starts with the first two
  dot-separated components of the part of the missing tag before its first \<open>-\<close>;
  otherwise the first tag that starts with the first component followed by a dot;
  otherwise the first tag of a non-empty list; and \<open>None\<close> for the empty list. A later
  step is reached only when every earlier step has no candidate.
\<close>

theorem find_best_matching_tag_priority:
  "find_best_matching_tag missing_tag available_tags =
     Inr (if missing_tag \<in> set available_tags then Some missing_tag
          else case find (\<lambda>tag. startswith tag (first_two_components (version_core missing_tag)))
                      available_tags of
                 Some tag \<Rightarrow> Some tag
               | None \<Rightarrow>
                   (case find (\<lambda>tag. startswith tag (first_component (version_core missing_tag) @ ''.''))
                           available_tags of
                      Some tag \<Rightarrow> Some tag
                    | None \<Rightarrow> (case available_tags of [] \<Rightarrow> None | tag # _ \<Rightarrow> Some tag)))"
proof -
  have core: "index (py_split CHR ''-'' missing_tag) 0 = Inr (version_core missing_tag)"
    by (simp add: index_split_0 version_core_def)
  have major: "index (py_split CHR ''.'' (version_core missing_tag)) 0
                 = Inr (first_component (version_core missing_tag))"
    by (simp add: index_split_0 first_component_def)
  show ?thesis
    unfolding find_best_matching_tag_def
    by (simp add: core major major_minor_eq find_filter_conv index_0 Let_def
          split: list.splits option.splits)
qed

text \<open>The examples of the description: same minor wins over same major and latest; an
  unknown major falls back to the first tag.\<close>

lemma same_minor_example:
  "find_best_matching_tag ''12.1.1-debian-12-r1''
     [''12.2.0-debian-12-r2'', ''12.1.5-debian-12-r3'', ''11.9.0-debian-12-r1'']
   = Inr (Some ''12.1.5-debian-12-r3'')"
  by code_simp

lemma latest_fallback_example:
  "find_best_matching_tag ''9.0.0-debian-12-r1'' [''3.1.0-debian-12-r1'', ''3.0.0-debian-12-r1'']
   = Inr (Some ''3.1.0-debian-12-r1'')"
  by code_simp

text \<open>
  Claim C9. The matcher never raises, also for tags without \<open>-\<close> or \<open>.\<close>; it
  returns \<open>None\<close> exactly when the list of available tags is empty; and a tag it returns
  is an element of that list.
\<close>

theorem find_best_matching_tag_total:
  "\<exists>r. find_best_matching_tag missing_tag available_tags = Inr r \<and>
        (r = None \<longleftrightarrow> available_tags = []) \<and>
        (\<forall>tag. r = Some tag \<longrightarrow> tag \<in> set available_tags)"
  by (auto simp add: find_best_matching_tag_eq split: option.splits list.splits dest: find_mem)

theorem find_best_matching_tag_total_witness:
  "\<exists>r. find_best_matching_tag ''latest'' [''3.1.0-debian-12-r1'', ''3.0.0''] = Inr r \<and>
        r = Some ''3.1.0-debian-12-r1'' \<and> ''3.1.0-debian-12-r1'' \<in> set [''3.1.0-debian-12-r1'', ''3.0.0'']"
proof -
  have e: "find_best_matching_tag ''latest'' [''3.1.0-debian-12-r1'', ''3.0.0'']
             = Inr (Some ''3.1.0-debian-12-r1'')"
    by code_simp
  from find_best_matching_tag_total [of "''latest''" "[''3.1.0-debian-12-r1'', ''3.0.0'']"] e
  show ?thesis by auto
qed

section \<open>Facts about strings and mappings\<close>

lemma replace_same: "new = old \<Longrightarrow> replace s old new = s"
  by (induction s old new rule: replace.induct) (auto simp: startswith_iff)

lemma dependency_entries_unchanged: "dependency_entries deps changed = (deps, changed)"
  by (induction deps arbitrary: changed) (auto simp: replace_same split: pyobj.splits)

lemma map_of_assign: "map_of (assign d k v) = (map_of d)(k \<mapsto> v)"
  by (induction d) auto

section \<open>The text rewriter\<close>

declare re_sub.simps [simp del]
























text \<open>
  Claim C4. A string that holds an in-container path such as \<open>/opt/bitnami/app\<close> is to
  be left unchanged by the rewriters, for every role. The text rewriter changes it in a
  documentation file and in a workflow file: the pattern \<open>\bbitnami/(...)\<close> matches
  behind the \<open>/\<close> of \<open>/opt/\<close>.
\<close>

theorem in_container_path_rewritten:
  "safe_text ''/srv/charts/bitnami/nginx/README.md'' True ''/opt/bitnami/app'' = ''/opt/helmhubio/app'' \<and>
   safe_text ''/srv/charts/.github/workflows/ci.yml'' False ''/opt/bitnami/app'' = ''/opt/helmhub-io/app''"
  by code_simp

text \<open>
  Claim C3. Applying a rewriter to the output of its first application is to report no
  change. A values document whose image repository starts with \<open>docker.io/helmhubio/\<close>
  is returned as it is with \<open>changed\<close> set, at every application; and the text
  rewriter, whose matches of one pattern do not overlap, leaves behind the second of two
  matches that share a \<open>/\<close> and rewrites it at the second application.
\<close>

theorem second_application_changed:
  "visit_values (PDict [(''image'', PDict [(''repository'', PStr ''docker.io/helmhubio/nginx'')])]) False
     = (PDict [(''image'', PDict [(''repository'', PStr ''docker.io/helmhubio/nginx'')])], True) \<and>
   visit_values
     (fst (visit_values
             (PDict [(''image'', PDict [(''repository'', PStr ''docker.io/helmhubio/nginx'')])]) False))
     False
     = (PDict [(''image'', PDict [(''repository'', PStr ''docker.io/helmhubio/nginx'')])], True) \<and>
   safe_text ''/srv/charts/notes.txt'' False ''/tree/main/bitnami/tree/main/bitnami/''
     = ''/tree/main/helmhubio/tree/main/bitnami/'' \<and>
   safe_text ''/srv/charts/notes.txt'' False ''/tree/main/helmhubio/tree/main/bitnami/''
     = ''/tree/main/helmhubio/tree/main/helmhubio/''"
  by code_simp

section \<open>The values rewriter\<close>

lemma py_split1_rest:
  "CHR ''/'' \<notin> set ns \<Longrightarrow> py_split1 CHR ''/'' (ns @ ''/'' @ rest) ! 1 = rest"
proof -
  assume ns: "CHR ''/'' \<notin> set ns"
  then have "dropWhile (\<lambda>c. c \<noteq> CHR ''/'') (ns @ ''/'' @ rest) = ''/'' @ rest"
    by (subst dropWhile_append2) auto
  moreover from ns have "takeWhile (\<lambda>c. c \<noteq> CHR ''/'') (ns @ ''/'' @ rest) = ns"
    by (subst takeWhile_append2) auto
  ultimately show ?thesis by (simp add: py_split1_def)
qed

lemma repository_branch_legacy:
  "ns = ''bitnami'' \<or> ns = ''bitnamilegacy'' \<Longrightarrow>
   repository_branch (ns @ ''/'' @ rest) = Some (''helmhubio/'' @ rest)"
  using py_split1_rest [of ns rest]
  by (auto simp: repository_branch_def)

lemma visit_values_changed_mono:
  "changed \<Longrightarrow> snd (visit_values v changed)"
  "changed \<Longrightarrow> snd (visit_values_items d changed)"
  "changed \<Longrightarrow> snd (visit_values_elems xs changed)"
  by (induction v changed and d changed and xs changed
        rule: visit_values_visit_values_items_visit_values_elems.induct)
     (auto simp: image_repository_def split: prod.splits option.splits pyobj.splits)

lemma visit_values_items_string:
  "map_of d k = Some (PStr s) \<Longrightarrow> map_of (fst (visit_values_items d changed)) k = Some (PStr s)"
  by (induction d arbitrary: changed) (auto simp: case_prod_beta)

lemma visit_values_items_value:
  "map_of d k = Some v \<Longrightarrow>
   \<exists>c. map_of (fst (visit_values_items d changed)) k = Some (fst (visit_values v c))"
proof (induction d arbitrary: changed)
  case Nil
  then show ?case by simp
next
  case (Cons kv d)
  show ?case
  proof (cases "fst kv = k")
    case True
    with Cons.prems have "snd kv = v" by (cases kv) auto
    with True show ?thesis by (auto simp: case_prod_beta intro: exI [of _ changed])
  next
    case False
    with Cons.prems have "map_of d k = Some v" by (cases kv) auto
    from Cons.IH [OF this] False show ?thesis by (auto simp: case_prod_beta)
  qed
qed

lemma image_repository_keeps_other:
  "k \<noteq> ''image'' \<Longrightarrow> map_of (fst (image_repository obj changed)) k = map_of obj k"
  by (auto simp: image_repository_def map_of_assign split: option.splits pyobj.splits)

lemma visit_values_dict_string:
  assumes "map_of img k = Some (PStr s)" and "k \<noteq> ''image''"
  shows "\<exists>img'. fst (visit_values (PDict img) c) = PDict img' \<and> map_of img' k = Some (PStr s)"
proof -
  obtain img1 c1 where ir: "image_repository img c = (img1, c1)" by force
  have "map_of img1 k = Some (PStr s)"
    using image_repository_keeps_other [OF assms(2), of img c] assms(1) ir by simp
  then have "map_of (fst (visit_values_items img1 c1)) k = Some (PStr s)"
    by (rule visit_values_items_string)
  with ir show ?thesis by (auto split: prod.splits)
qed

lemma after_last_slash_prefix:
  "after_last_slash (p @ ''/'' @ rest) = after_last_slash rest"
  by (simp add: after_last_slash_def takeWhile_tail)

lemma visit_values_elems_length:
  "length (fst (visit_values_elems xs changed)) = length xs"
  by (induction xs arbitrary: changed) (simp_all add: case_prod_beta)

lemma visit_values_elems_nth:
  "i < length xs \<Longrightarrow>
   \<exists>c. fst (visit_values_elems xs changed) ! i = fst (visit_values (xs ! i) c)"
proof (induction xs arbitrary: changed i)
  case Nil
  then show ?case by simp
next
  case (Cons x xs)
  show ?case
  proof (cases i)
    case 0
    then show ?thesis by (auto simp: case_prod_beta)
  next
    case (Suc j)
    with Cons.prems have "j < length xs" by simp
    from Cons.IH [OF this] Suc show ?thesis by (simp add: case_prod_beta)
  qed
qed

lemma visit_values_items_sets:
  "map_of d k = Some v \<Longrightarrow> (\<And>c. snd (visit_values v c)) \<Longrightarrow> snd (visit_values_items d changed)"
proof (induction d arbitrary: changed)
  case Nil
  then show ?case by simp
next
  case (Cons kv d)
  show ?case
  proof (cases "fst kv = k")
    case True
    with Cons.prems(1) have "snd kv = v" by (cases kv) auto
    with Cons.prems(2) [of changed] show ?thesis
      by (simp add: case_prod_beta visit_values_changed_mono(2))
  next
    case False
    with Cons.prems(1) have "map_of d k = Some v" by (cases kv) auto
    from Cons.IH [OF this Cons.prems(2)] show ?thesis by (simp add: case_prod_beta)
  qed
qed

lemma visit_values_elems_sets:
  "i < length xs \<Longrightarrow> (\<And>c. snd (visit_values (xs ! i) c)) \<Longrightarrow>
   snd (visit_values_elems xs changed)"
proof (induction xs arbitrary: changed i)
  case Nil
  then show ?case by simp
next
  case (Cons x xs)
  show ?case
  proof (cases i)
    case 0
    with Cons.prems(2) [of changed] show ?thesis
      by (simp add: case_prod_beta visit_values_changed_mono(3))
  next
    case (Suc j)
    with Cons.prems have j: "j < length xs" and "\<And>c. snd (visit_values (xs ! j) c)" by simp_all
    from Cons.IH [OF this] show ?thesis by (simp add: case_prod_beta)
  qed
qed

lemma at_path_assign_repository:
  assumes "at_path (PDict img) path = Some r" and "2 \<le> length path"
    and "map_of img ''repository'' = Some (PStr x)"
  shows "at_path (PDict (assign img ''repository'' (PStr y))) path = Some r"
proof -
  from assms(2) obtain p p' rest where path: "path = p # p' # rest"
    by (cases path; cases "tl path") auto
  show ?thesis
  proof (cases p)
    case (Key k)
    show ?thesis
    proof (cases "k = ''repository''")
      case True
      with assms(1,3) path Key show ?thesis by simp
    next
      case False
      with assms(1) path Key show ?thesis by (simp add: map_of_assign)
    qed
  next
    case (Idx i)
    with assms(1) path show ?thesis by simp
  qed
qed

lemma image_repository_at_path:
  assumes "map_of d k = Some v" and "at_path v path = Some r" and "2 \<le> length path"
  shows "\<exists>v1. map_of (fst (image_repository d changed)) k = Some v1 \<and> at_path v1 path = Some r"
proof (cases "fst (image_repository d changed) = d")
  case True
  with assms show ?thesis by simp
next
  case False
  then obtain img repo new where img: "map_of d ''image'' = Some (PDict img)"
    and repo: "map_of img ''repository'' = Some (PStr repo)"
    and d1: "fst (image_repository d changed)
               = assign d ''image'' (PDict (assign img ''repository'' (PStr new)))"
    by (auto simp: image_repository_def dict_get_def split: option.splits pyobj.splits)
  show ?thesis
  proof (cases "k = ''image''")
    case True
    with assms(1) img have "v = PDict img" by simp
    with at_path_assign_repository [OF _ assms(3) repo, of r new] assms(2)
    have "at_path (PDict (assign img ''repository'' (PStr new))) path = Some r" by simp
    with d1 True show ?thesis by (simp add: map_of_assign)
  next
    case False
    with d1 assms(1,2) show ?thesis by (simp add: map_of_assign)
  qed
qed

lemma values_root:
  assumes ns: "ns = ''bitnami'' \<or> ns = ''bitnamilegacy''"
    and image: "map_of obj ''image'' = Some (PDict img)"
    and repo: "map_of img ''repository'' = Some (PStr (ns @ ''/'' @ rest))"
  shows "at_path (fst (visit_values (PDict obj) changed)) [Key ''image'', Key ''repository'']
           = Some (PStr (''helmhubio/'' @ rest)) \<and>
         snd (visit_values (PDict obj) changed)"
proof -
  let ?new = "''helmhubio/'' @ rest"
  let ?img1 = "assign img ''repository'' (PStr ?new)"
  let ?obj1 = "assign obj ''image'' (PDict ?img1)"
  have ir: "image_repository obj changed = (?obj1, True)"
    using image repo repository_branch_legacy [OF ns, of rest]
    by (simp add: image_repository_def dict_get_def)
  obtain obj2 c2 where items: "visit_values_items ?obj1 True = (obj2, c2)" by force
  have c2: "c2" using visit_values_changed_mono(2) [of True ?obj1] items by simp
  have "map_of ?obj1 ''image'' = Some (PDict ?img1)" by (simp add: map_of_assign)
  from visit_values_items_value [OF this, of True] items
  obtain c where o2: "map_of obj2 ''image'' = Some (fst (visit_values (PDict ?img1) c))" by auto
  have "map_of ?img1 ''repository'' = Some (PStr ?new)" by (simp add: map_of_assign)
  from visit_values_dict_string [OF this, of c]
  obtain img' where i': "fst (visit_values (PDict ?img1) c) = PDict img'"
    and r': "map_of img' ''repository'' = Some (PStr ?new)" by auto
  have "visit_values (PDict obj) changed = (PDict obj2, True)"
    using ir items c2 by simp
  with o2 i' r' show ?thesis by simp
qed

lemma values_at_path:
  assumes ns: "ns = ''bitnami'' \<or> ns = ''bitnamilegacy''"
  shows "at_path doc (ps @ [Key ''image'', Key ''repository'']) = Some (PStr (ns @ ''/'' @ rest)) \<Longrightarrow>
         at_path (fst (visit_values doc changed)) (ps @ [Key ''image'', Key ''repository''])
           = Some (PStr (''helmhubio/'' @ rest)) \<and>
         snd (visit_values doc changed)"
proof (induction ps arbitrary: doc changed)
  case Nil
  then obtain obj img where "doc = PDict obj" and "map_of obj ''image'' = Some (PDict img)"
    and "map_of img ''repository'' = Some (PStr (ns @ ''/'' @ rest))"
    by (cases doc) (auto split: option.splits elim!: at_path.elims)
  with values_root [OF ns, of obj img rest changed] show ?case by simp
next
  case (Cons p ps)
  let ?q = "ps @ [Key ''image'', Key ''repository'']"
  have len: "2 \<le> length ?q" by simp
  show ?case
  proof (cases p)
    case (Key k)
    with Cons.prems obtain d v where doc: "doc = PDict d" and v: "map_of d k = Some v"
      and rest: "at_path v ?q = Some (PStr (ns @ ''/'' @ rest))"
      by (cases doc) (auto split: option.splits)
    obtain d1 c1 where ir: "image_repository d changed = (d1, c1)" by force
    from image_repository_at_path [OF v rest len, of changed] ir
    obtain v1 where v1: "map_of d1 k = Some v1"
      and rest1: "at_path v1 ?q = Some (PStr (ns @ ''/'' @ rest))" by auto
    from visit_values_items_value [OF v1, of c1]
    obtain c where look: "map_of (fst (visit_values_items d1 c1)) k = Some (fst (visit_values v1 c))"
      by auto
    have "snd (visit_values_items d1 c1)"
      by (rule visit_values_items_sets [OF v1]) (simp add: Cons.IH [OF rest1])
    with Cons.IH [OF rest1, of c] look ir doc Key show ?thesis
      by (simp add: case_prod_beta)
  next
    case (Idx i)
    with Cons.prems obtain xs where doc: "doc = PList xs" and i: "i < length xs"
      and rest: "at_path (xs ! i) ?q = Some (PStr (ns @ ''/'' @ rest))"
      by (cases doc) (auto split: if_splits)
    from visit_values_elems_nth [OF i, of changed]
    obtain c where nth: "fst (visit_values_elems xs changed) ! i = fst (visit_values (xs ! i) c)"
      by auto
    have "snd (visit_values_elems xs changed)"
      by (rule visit_values_elems_sets [OF i]) (simp add: Cons.IH [OF rest])
    with Cons.IH [OF rest, of c] nth doc Idx i show ?thesis
      by (simp add: case_prod_beta visit_values_elems_length)
  qed
qed

text \<open>
  Claim C5. In a values document, at any depth and also inside sequences, a repository
  string \<open>ns/rest\<close> under an \<open>image\<close> mapping, with \<open>ns\<close> one of the two legacy
  namespaces, is rewritten to \<open>helmhubio/rest\<close> and \<open>changed\<close> is set: only the
  segment before the first \<open>/\<close> changes, everything behind it is kept, and so is the
  image base name behind the last \<open>/\<close>.
\<close>

theorem values_namespace_only:
  assumes "ns = ''bitnami'' \<or> ns = ''bitnamilegacy''"
    and "at_path doc (ps @ [Key ''image'', Key ''repository'']) = Some (PStr (ns @ ''/'' @ rest))"
  shows "at_path (fst (visit_values doc changed)) (ps @ [Key ''image'', Key ''repository''])
           = Some (PStr (''helmhubio/'' @ rest)) \<and>
         snd (visit_values doc changed) \<and>
         after_last_slash (''helmhubio/'' @ rest) = after_last_slash (ns @ ''/'' @ rest)"
  using values_at_path [OF assms]
    after_last_slash_prefix [of "''helmhubio''" rest] after_last_slash_prefix [of ns rest]
  by simp

theorem values_namespace_only_witness:
  "at_path (fst (visit_values
                   (PDict [(''metrics'', PDict [(''image'',
                              PDict [(''registry'', PStr ''docker.io''),
                                     (''repository'', PStr ''bitnami/foo/bar'')])]),
                           (''sidecars'', PList [PDict [(''image'',
                              PDict [(''repository'', PStr ''bitnamilegacy/exporter'')])]])])
                   False))
           [Key ''metrics'', Key ''image'', Key ''repository'']
     = Some (PStr ''helmhubio/foo/bar'') \<and>
   at_path (fst (visit_values
                   (PDict [(''metrics'', PDict [(''image'',
                              PDict [(''registry'', PStr ''docker.io''),
                                     (''repository'', PStr ''bitnami/foo/bar'')])]),
                           (''sidecars'', PList [PDict [(''image'',
                              PDict [(''repository'', PStr ''bitnamilegacy/exporter'')])]])])
                   False))
           [Key ''sidecars'', Idx 0, Key ''image'', Key ''repository'']
     = Some (PStr ''helmhubio/exporter'') \<and>
   after_last_slash ''helmhubio/foo/bar'' = ''bar''"
proof -
  let ?doc = "PDict [(''metrics'', PDict [(''image'',
                        PDict [(''registry'', PStr ''docker.io''),
                               (''repository'', PStr ''bitnami/foo/bar'')])]),
                     (''sidecars'', PList [PDict [(''image'',
                        PDict [(''repository'', PStr ''bitnamilegacy/exporter'')])]])]"
  have b: "after_last_slash ''helmhubio/foo/bar'' = ''bar''" by code_simp
  have n1: "''bitnami'' = ''bitnami'' \<or> ''bitnami'' = ''bitnamilegacy''" by simp
  have n2: "''bitnamilegacy'' = ''bitnami'' \<or> ''bitnamilegacy'' = ''bitnamilegacy''" by simp
  have p1: "at_path ?doc ([Key ''metrics''] @ [Key ''image'', Key ''repository''])
              = Some (PStr (''bitnami'' @ ''/'' @ ''foo/bar''))" by simp
  have p2: "at_path ?doc ([Key ''sidecars'', Idx 0] @ [Key ''image'', Key ''repository''])
              = Some (PStr (''bitnamilegacy'' @ ''/'' @ ''exporter''))" by simp
  from values_namespace_only [OF n1 p1, of False]
  have "at_path (fst (visit_values ?doc False)) ([Key ''metrics''] @ [Key ''image'', Key ''repository''])
          = Some (PStr (''helmhubio/'' @ ''foo/bar''))" by blast
  moreover from values_namespace_only [OF n2 p2, of False]
  have "at_path (fst (visit_values ?doc False))
          ([Key ''sidecars'', Idx 0] @ [Key ''image'', Key ''repository''])
          = Some (PStr (''helmhubio/'' @ ''exporter''))" by blast
  ultimately show ?thesis using b by (simp only: append_Cons append_Nil)
qed

section \<open>The chart rewriter\<close>

text \<open>
  Claim C7. The chart rewriter is to rewrite the legacy prefix of the image references in
  \<open>annotations.images\<close> and the legacy chart registry in the \<open>repository\<close> of every
  dependency. The strings it looks for are the new names: no dependency entry is ever
  changed, and a document with the legacy image prefix and the legacy chart registry is
  returned as it is, unchanged.
\<close>

theorem chart_legacy_prefixes_kept:
  "(\<forall>deps changed. dependency_entries deps changed = (deps, changed)) \<and>
   chart_document
     (PDict [(''annotations'', PDict [(''images'', PList [PStr ''docker.io/bitnami/nginx:1.25''])]),
             (''dependencies'',
              PList [PDict [(''repository'', PStr ''oci://registry-1.docker.io/bitnamicharts'')]])])
   = Inr (PDict [(''annotations'', PDict [(''images'', PList [PStr ''docker.io/bitnami/nginx:1.25''])]),
                 (''dependencies'',
                  PList [PDict [(''repository'', PStr ''oci://registry-1.docker.io/bitnamicharts'')]])],
          False)"
proof -
  have "chart_document
     (PDict [(''annotations'', PDict [(''images'', PList [PStr ''docker.io/bitnami/nginx:1.25''])]),
             (''dependencies'',
              PList [PDict [(''repository'', PStr ''oci://registry-1.docker.io/bitnamicharts'')]])])
   = Inr (PDict [(''annotations'', PDict [(''images'', PList [PStr ''docker.io/bitnami/nginx:1.25''])]),
                 (''dependencies'',
                  PList [PDict [(''repository'', PStr ''oci://registry-1.docker.io/bitnamicharts'')]])],
          False)"
    by code_simp
  then show ?thesis by (simp add: dependency_entries_unchanged)
qed

section \<open>The schema rewriter\<close>

lemma visit_schema_items_string:
  "map_of d k = Some (PStr s) \<Longrightarrow>
   map_of (fst (visit_schema_items d changed)) k = Some (PStr (schema_string s))"
proof (induction d arbitrary: changed)
  case Nil
  then show ?case by simp
next
  case (Cons kv d)
  obtain k' v where kv: "kv = (k', v)" by (cases kv)
  show ?case
  proof (cases "k' = k")
    case True
    with Cons.prems kv have "v = PStr s" by simp
    with True kv show ?thesis by (simp add: case_prod_beta Let_def)
  next
    case False
    with Cons.prems kv have "map_of d k = Some (PStr s)" by simp
    note ih = Cons.IH [OF this]
    show ?thesis using False kv ih
      by (cases v) (simp_all add: case_prod_beta Let_def)
  qed
qed

lemma visit_schema_items_value:
  "map_of d k = Some v \<Longrightarrow> (\<forall>s. v \<noteq> PStr s) \<Longrightarrow>
   \<exists>c. map_of (fst (visit_schema_items d changed)) k = Some (fst (visit_schema v c))"
proof (induction d arbitrary: changed)
  case Nil
  then show ?case by simp
next
  case (Cons kv d)
  obtain k' v' where kv: "kv = (k', v')" by (cases kv)
  show ?case
  proof (cases "k' = k")
    case True
    with Cons.prems kv have "v' = v" by simp
    with True kv Cons.prems(2) show ?thesis
      by (cases v) (auto simp add: case_prod_beta Let_def)
  next
    case False
    with Cons.prems kv have "map_of d k = Some v" by simp
    note ih = Cons.IH [OF this Cons.prems(2)]
    show ?thesis using False kv ih
      by (cases v') (simp_all add: case_prod_beta Let_def)
  qed
qed

lemma visit_schema_elems_length:
  "length (fst (visit_schema_elems xs changed)) = length xs"
  by (induction xs arbitrary: changed) (simp_all add: case_prod_beta)

lemma visit_schema_elems_nth:
  "i < length xs \<Longrightarrow>
   \<exists>c. fst (visit_schema_elems xs changed) ! i = fst (visit_schema (xs ! i) c)"
proof (induction xs arbitrary: changed i)
  case Nil
  then show ?case by simp
next
  case (Cons x xs)
  show ?case
  proof (cases i)
    case 0
    then show ?thesis by (auto simp: case_prod_beta)
  next
    case (Suc j)
    with Cons.prems have "j < length xs" by simp
    from Cons.IH [OF this] Suc show ?thesis by (simp add: case_prod_beta)
  qed
qed

lemma at_path_string: "at_path (PStr s) ps = Some v \<Longrightarrow> ps = []"
  by (cases ps) auto

lemma visit_schema_key_string:
  "at_path doc (ps @ [Key k]) = Some (PStr s) \<Longrightarrow>
   at_path (fst (visit_schema doc changed)) (ps @ [Key k]) = Some (PStr (schema_string s))"
proof (induction ps arbitrary: doc changed)
  case Nil
  then obtain d where doc: "doc = PDict d" and "map_of d k = Some (PStr s)"
    by (cases doc) (auto split: option.splits)
  then show ?case by (simp add: case_prod_beta visit_schema_items_string)
next
  case (Cons p ps)
  show ?case
  proof (cases p)
    case (Key k')
    with Cons.prems obtain d v where doc: "doc = PDict d" and v: "map_of d k' = Some v"
      and rest: "at_path v (ps @ [Key k]) = Some (PStr s)"
      by (cases doc) (auto split: option.splits)
    from rest have "\<forall>s. v \<noteq> PStr s" by (auto dest: at_path_string)
    from visit_schema_items_value [OF v this, of changed]
    obtain c where "map_of (fst (visit_schema_items d changed)) k' = Some (fst (visit_schema v c))"
      by auto
    with Cons.IH [OF rest, of c] doc Key show ?thesis by (simp add: case_prod_beta)
  next
    case (Idx i)
    with Cons.prems obtain xs where doc: "doc = PList xs" and i: "i < length xs"
      and rest: "at_path (xs ! i) (ps @ [Key k]) = Some (PStr s)"
      by (cases doc) (auto split: if_splits)
    from visit_schema_elems_nth [OF i, of changed]
    obtain c where "fst (visit_schema_elems xs changed) ! i = fst (visit_schema (xs ! i) c)"
      by auto
    with Cons.IH [OF rest, of c] doc Idx i show ?thesis
      by (simp add: case_prod_beta visit_schema_elems_length)
  qed
qed

lemma visit_schema_elem_string:
  "at_path doc (ps @ [Idx i]) = Some (PStr s) \<Longrightarrow>
   at_path (fst (visit_schema doc changed)) (ps @ [Idx i]) = Some (PStr s)"
proof (induction ps arbitrary: doc changed)
  case Nil
  then obtain xs where doc: "doc = PList xs" and i: "i < length xs" and "xs ! i = PStr s"
    by (cases doc) (auto split: if_splits)
  with visit_schema_elems_nth [OF i, of changed] show ?case
    by (auto simp add: case_prod_beta visit_schema_elems_length)
next
  case (Cons p ps)
  show ?case
  proof (cases p)
    case (Key k')
    with Cons.prems obtain d v where doc: "doc = PDict d" and v: "map_of d k' = Some v"
      and rest: "at_path v (ps @ [Idx i]) = Some (PStr s)"
      by (cases doc) (auto split: option.splits)
    from rest have "\<forall>s. v \<noteq> PStr s" by (auto dest: at_path_string)
    from visit_schema_items_value [OF v this, of changed]
    obtain c where "map_of (fst (visit_schema_items d changed)) k' = Some (fst (visit_schema v c))"
      by auto
    with Cons.IH [OF rest, of c] doc Key show ?thesis by (simp add: case_prod_beta)
  next
    case (Idx j)
    with Cons.prems obtain xs where doc: "doc = PList xs" and j: "j < length xs"
      and rest: "at_path (xs ! j) (ps @ [Idx i]) = Some (PStr s)"
      by (cases doc) (auto split: if_splits)
    from visit_schema_elems_nth [OF j, of changed]
    obtain c where "fst (visit_schema_elems xs changed) ! j = fst (visit_schema (xs ! j) c)"
      by auto
    with Cons.IH [OF rest, of c] doc Idx j show ?thesis
      by (simp add: case_prod_beta visit_schema_elems_length)
  qed
qed

text \<open>
  Claim C8, as stated: the rewrite is applied to every string of a schema document, also
  to a string that is an element of an array. It is not: a string element of an array is
  returned as it is, although the rewrite would change it.
\<close>

theorem schema_array_string_kept:
  "visit_schema (PDict [(''examples'', PList [PStr ''bitnami/nginx''])]) False
     = (PDict [(''examples'', PList [PStr ''bitnami/nginx''])], False) \<and>
   schema_string ''bitnami/nginx'' = ''helmhubio/nginx''"
  by code_simp

text \<open>
  Claim C8, amended. In a schema document the rewrite is applied to every string that is
  the value of a key of a mapping, at any depth, also in mappings inside arrays; a string
  that is an element of an array, or the whole document, is returned as it is.
\<close>

theorem schema_strings_at_keys:
  "(at_path doc (ps @ [Key k]) = Some (PStr s) \<longrightarrow>
      at_path (fst (visit_schema doc changed)) (ps @ [Key k]) = Some (PStr (schema_string s))) \<and>
   (at_path doc (ps @ [Idx i]) = Some (PStr s) \<longrightarrow>
      at_path (fst (visit_schema doc changed)) (ps @ [Idx i]) = Some (PStr s)) \<and>
   (doc = PStr s \<longrightarrow> fst (visit_schema doc changed) = PStr s)"
  using visit_schema_key_string visit_schema_elem_string by auto

theorem schema_strings_at_keys_witness:
  "at_path (fst (visit_schema
                   (PDict [(''properties'', PDict [(''default'', PStr ''bitnami/nginx'')]),
                           (''examples'', PList [PStr ''bitnami/redis''])]) False))
           [Key ''properties'', Key ''default'']
     = Some (PStr ''helmhubio/nginx'') \<and>
   at_path (fst (visit_schema
                   (PDict [(''properties'', PDict [(''default'', PStr ''bitnami/nginx'')]),
                           (''examples'', PList [PStr ''bitnami/redis''])]) False))
           [Key ''examples'', Idx 0]
     = Some (PStr ''bitnami/redis'')"
proof -
  let ?doc = "PDict [(''properties'', PDict [(''default'', PStr ''bitnami/nginx'')]),
                     (''examples'', PList [PStr ''bitnami/redis''])]"
  have k: "at_path ?doc ([Key ''properties''] @ [Key ''default'']) = Some (PStr ''bitnami/nginx'')"
    by simp
  have i: "at_path ?doc ([Key ''examples''] @ [Idx 0]) = Some (PStr ''bitnami/redis'')"
    by simp
  have e: "schema_string ''bitnami/nginx'' = ''helmhubio/nginx''" by code_simp
  from schema_strings_at_keys
         [of ?doc "[Key ''properties'']" "''default''" "''bitnami/nginx''" False 0]
       schema_strings_at_keys
         [of ?doc "[Key ''examples'']" "''default''" "''bitnami/redis''" False 0]
       k i e
  show ?thesis by simp
qed

section \<open>The run\<close>

text \<open>
  Claim C2. Without \<open>--apply\<close> a run is to write nothing. The updaters are called and
  write in every run, and \<open>apply\<close> is only read by the renaming step and the report: a
  run without \<open>--apply\<close> over a tree with one documentation file rewrites that file.
\<close>

theorem main_dry_run_writes:
  "files (main io [''srv'', ''charts''] False
            [([''bitnami'', ''nginx'', ''README.md''], ''image: docker.io/bitnami/nginx'')])
   = [([''bitnami'', ''nginx'', ''README.md''], ''image: docker.io/helmhubio/nginx'')]"
  by code_simp















end
